theory Spec2Isabelle
  imports Main "HOL-Library.Char_ord" "HOL-Library.List_Lexorder"
    "HOL-Library.Product_Lexorder" "HOL-Library.Multiset"
begin

section \<open>Strings and characters\<close>

text \<open>
  A Python \<open>str\<close> is a sequence of code points.  It is modelled as a \<^typ>\<open>string\<close>,
  each \<^typ>\<open>char\<close> standing for the code point of the same number, so the model
  covers the text whose code points are below 256 (ASCII and Latin-1).  The character
  classes below are the ones CPython uses for \<open>str.strip\<close>, \<open>str.split\<close> and for
  \<open>\s\<close>, \<open>\d\<close>, \<open>\w\<close> and case-insensitive literals of a \<open>str\<close> pattern, on that
  range.
\<close>

definition code_point :: "char \<Rightarrow> nat" where
  "code_point c = of_char c"

definition isspace :: "char \<Rightarrow> bool" where
  "isspace c = (let n = code_point c in
     (9 \<le> n \<and> n \<le> 13) \<or> (28 \<le> n \<and> n \<le> 32) \<or> n = 133 \<or> n = 160)"

definition isdigit :: "char \<Rightarrow> bool" where
  "isdigit c = (let n = code_point c in 48 \<le> n \<and> n \<le> 57)"

definition isword :: "char \<Rightarrow> bool" where
  "isword c = (let n = code_point c in
     (48 \<le> n \<and> n \<le> 57) \<or> (65 \<le> n \<and> n \<le> 90) \<or> n = 95 \<or> (97 \<le> n \<and> n \<le> 122)
     \<or> n = 170 \<or> n = 178 \<or> n = 179 \<or> n = 181 \<or> n = 185 \<or> n = 186
     \<or> (188 \<le> n \<and> n \<le> 190) \<or> (192 \<le> n \<and> n \<le> 214) \<or> (216 \<le> n \<and> n \<le> 246)
     \<or> 248 \<le> n)"

definition lower :: "char \<Rightarrow> char" where
  "lower c = (let n = code_point c in
     if (65 \<le> n \<and> n \<le> 90) \<or> (192 \<le> n \<and> n \<le> 214) \<or> (216 \<le> n \<and> n \<le> 222)
     then char_of (n + 32) else c)"

text \<open>The class \<open>[A-Za-z]\<close> and the class \<open>[A-Za-z0-9\- ]\<close> of the title pattern.\<close>

definition isalpha_ascii :: "char \<Rightarrow> bool" where
  "isalpha_ascii c = (let n = code_point c in
     (65 \<le> n \<and> n \<le> 90) \<or> (97 \<le> n \<and> n \<le> 122))"

definition ismodel_char :: "char \<Rightarrow> bool" where
  "ismodel_char c = (isalpha_ascii c \<or> isdigit c \<or> c = CHR ''-'' \<or> c = CHR '' '')"

text \<open>\<open>str.strip()\<close>: whitespace is removed at both ends.\<close>

definition strip :: "string \<Rightarrow> string" where
  "strip s = rev (dropWhile isspace (rev (dropWhile isspace s)))"

text \<open>
  \<open>str.split()\<close> with no argument: the maximal runs of non-whitespace characters.
\<close>

function split_ws :: "string \<Rightarrow> string list" where
  "split_ws s =
     (case dropWhile isspace s of
        [] \<Rightarrow> []
      | c # cs \<Rightarrow> takeWhile (\<lambda>x. \<not> isspace x) (c # cs)
                 # split_ws (dropWhile (\<lambda>x. \<not> isspace x) cs))"
  by pat_completeness auto
termination
proof (relation "measure length")
  show "wf (measure length)" by simp
next
  fix s :: string and c cs
  assume a: "dropWhile isspace s = c # cs"
  have "length (dropWhile (\<lambda>x. \<not> isspace x) cs) \<le> length cs"
    by (rule length_dropWhile_le)
  moreover have "length (c # cs) \<le> length s"
    using a length_dropWhile_le [of isspace s] by simp
  ultimately show "(dropWhile (\<lambda>x. \<not> isspace x) cs, s) \<in> measure length"
    by simp
qed

declare split_ws.simps [simp del]

text \<open>\<open>sep.join(parts)\<close>.\<close>

fun join :: "string \<Rightarrow> string list \<Rightarrow> string" where
  "join sep [] = []"
| "join sep [x] = x"
| "join sep (x # y # ys) = x @ sep @ join sep (y # ys)"

section \<open>clean\_text\<close>

text \<open>
  \<open>re.sub(r"\s+", " ", value)\<close>: every maximal run of whitespace becomes one
  space.  A match of \<open>\s+\<close> starts at the first whitespace character that is left and
  is greedy, so it is the whole run (\<open>match_at_ws_plus\<close> below).
\<close>

function sub_ws :: "string \<Rightarrow> string" where
  "sub_ws [] = []"
| "sub_ws (c # cs) =
     (if isspace c then CHR '' '' # sub_ws (dropWhile isspace cs) else c # sub_ws cs)"
  by pat_completeness auto
termination
  by (relation "measure length") (auto simp: le_imp_less_Suc length_dropWhile_le)

text \<open>
  \<open>clean_text(value)\<close>; the argument is optional because the source tests it for
  \<open>None\<close> first.
\<close>

definition clean_text :: "string option \<Rightarrow> string" where
  "clean_text v = (case v of None \<Rightarrow> [] | Some s \<Rightarrow> strip (sub_ws s))"

text \<open>
  A whitespace-normalized string: no two whitespace characters in a row, and no
  whitespace at either end.
\<close>

fun no_ws_run :: "string \<Rightarrow> bool" where
  "no_ws_run (a # b # cs) = (\<not> (isspace a \<and> isspace b) \<and> no_ws_run (b # cs))"
| "no_ws_run _ = True"

definition ws_normalized :: "string \<Rightarrow> bool" where
  "ws_normalized s =
     (no_ws_run s \<and> (case s of [] \<Rightarrow> True | c # cs \<Rightarrow> \<not> isspace c \<and> \<not> isspace (last s)))"

section \<open>Regular expressions\<close>

text \<open>
  The patterns of the source are written as syntax trees and run by a backtracking
  matcher with the priorities of Python's \<open>re\<close>: an alternation tries its left branch
  first, a repetition is greedy.  \<open>ends r s (i, g)\<close> lists, in the order in which
  Python would try them, the states in which a match of \<open>r\<close> that starts at position
  \<open>i\<close> with captures \<open>g\<close> can end; the head of the list is the match Python reports.
  A capture is stored as (group number, start, end), the latest in front.
\<close>

type_synonym groups = "(nat \<times> nat \<times> nat) list"
type_synonym mstate = "nat \<times> groups"

datatype regex =
    Eps
  | Lit char
  | LitI char
  | Cls "char \<Rightarrow> bool"
  | Bol
  | Eol
  | WordB
  | Seq regex regex
  | Alt regex regex
  | Rep nat "nat option" regex
  | Grp nat regex

text \<open>
  \<open>\b\<close>: the characters on the two sides of the position differ in being word
  characters; outside the string counts as no word character, and the empty string has no
  boundary.
\<close>

definition at_boundary :: "string \<Rightarrow> nat \<Rightarrow> bool" where
  "at_boundary s i =
     (s \<noteq> [] \<and> ((0 < i \<and> i \<le> length s \<and> isword (s ! (i - 1))) \<noteq> (i < length s \<and> isword (s ! i))))"

text \<open>
  A greedy repetition \<open>r{lo,hi}\<close> (\<open>hi = None\<close> for no upper bound): one more round of
  the body first, then, when \<open>lo\<close> rounds are done, stopping here.  A round has to
  consume a character, as every repeated body of the source's patterns does; \<open>n\<close> is the
  length of the subject.
\<close>

function rep :: "(mstate \<Rightarrow> mstate list) \<Rightarrow> nat \<Rightarrow> nat \<Rightarrow> nat option \<Rightarrow> mstate \<Rightarrow> mstate list" where
  "rep f n lo hi st =
     (if hi = Some 0 then [st]
      else concat (map (\<lambda>st'. if fst st < fst st' \<and> fst st' \<le> n
                                then rep f n (lo - 1) (map_option (\<lambda>h. h - 1) hi) st'
                                else [])
                       (f st))
           @ (if lo = 0 then [st] else []))"
  by pat_completeness auto
termination
  by (relation "measure (\<lambda>(f, n, lo, hi, st). n - fst st)") auto

declare rep.simps [simp del]

primrec ends :: "regex \<Rightarrow> string \<Rightarrow> mstate \<Rightarrow> mstate list" where
  "ends Eps s = (\<lambda>st. [st])"
| "ends (Lit c) s = (\<lambda>(i, g). if i < length s \<and> s ! i = c then [(Suc i, g)] else [])"
| "ends (LitI c) s =
     (\<lambda>(i, g). if i < length s \<and> lower (s ! i) = lower c then [(Suc i, g)] else [])"
| "ends (Cls P) s = (\<lambda>(i, g). if i < length s \<and> P (s ! i) then [(Suc i, g)] else [])"
| "ends Bol s = (\<lambda>(i, g). if i = 0 then [(i, g)] else [])"
| "ends Eol s =
     (\<lambda>(i, g). if i = length s \<or> (Suc i = length s \<and> s ! i = CHR 0x0A) then [(i, g)] else [])"
| "ends WordB s = (\<lambda>(i, g). if at_boundary s i then [(i, g)] else [])"
| "ends (Seq a b) s = (\<lambda>st. concat (map (ends b s) (ends a s st)))"
| "ends (Alt a b) s = (\<lambda>st. ends a s st @ ends b s st)"
| "ends (Rep lo hi r) s = rep (ends r s) (length s) lo hi"
| "ends (Grp k r) s = (\<lambda>(i, g). map (\<lambda>(j, g'). (j, (k, i, j) # g')) (ends r s (i, g)))"

text \<open>
  A match object: start, end and captures.  \<open>match_at\<close> is one attempt at a position;
  with \<open>adv\<close> set an empty match is refused there (the rule of \<open>re.split\<close> after an
  empty match).  \<open>re.search\<close> tries the positions from left to right, \<open>re.match\<close> only
  the first.
\<close>

type_synonym rmatch = "nat \<times> nat \<times> groups"

definition match_at :: "regex \<Rightarrow> string \<Rightarrow> nat \<Rightarrow> bool \<Rightarrow> rmatch option" where
  "match_at r s i adv =
     (case filter (\<lambda>(j, g). \<not> (adv \<and> j = i)) (ends r s (i, [])) of
        [] \<Rightarrow> None
      | (j, g) # _ \<Rightarrow> Some (i, j, g))"

fun scan :: "regex \<Rightarrow> string \<Rightarrow> nat \<Rightarrow> nat \<Rightarrow> bool \<Rightarrow> rmatch option" where
  "scan r s i 0 adv = match_at r s i adv"
| "scan r s i (Suc k) adv =
     (case match_at r s i adv of
        Some m \<Rightarrow> Some m
      | None \<Rightarrow> scan r s (Suc i) k False)"

definition re_search_from :: "regex \<Rightarrow> string \<Rightarrow> nat \<Rightarrow> bool \<Rightarrow> rmatch option" where
  "re_search_from r s start adv =
     (if start \<le> length s then scan r s start (length s - start) adv else None)"

definition re_search :: "regex \<Rightarrow> string \<Rightarrow> rmatch option" where
  "re_search r s = re_search_from r s 0 False"

definition re_match :: "regex \<Rightarrow> string \<Rightarrow> rmatch option" where
  "re_match r s = match_at r s 0 False"

definition slice :: "string \<Rightarrow> nat \<Rightarrow> nat \<Rightarrow> string" where
  "slice s i j = take (j - i) (drop i s)"

definition group0 :: "string \<Rightarrow> rmatch \<Rightarrow> string" where
  "group0 s m = (case m of (i, j, g) \<Rightarrow> slice s i j)"

definition group :: "string \<Rightarrow> rmatch \<Rightarrow> nat \<Rightarrow> string option" where
  "group s m k =
     (case m of (i, j, g) \<Rightarrow>
        (case map_of g k of None \<Rightarrow> None | Some (a, b) \<Rightarrow> Some (slice s a b)))"

text \<open>
  \<open>re.split(r, s)\<close> as far as the source reads it: whether the list has a second
  element (the pattern matches somewhere) and that element, the text between the end of
  the first match and the start of the second one, or the end of the string.  The search
  for the second match starts where the first one ended and refuses an empty match there
  when the first one was empty (the rule of Python 3.7 and later; the source needs 3.9 for
  its \<open>list[str]\<close> annotations).  The pattern of the source has no capture group, so
  the list holds nothing but the pieces.
\<close>

definition split_second :: "regex \<Rightarrow> string \<Rightarrow> string option" where
  "split_second r s =
     (case re_search r s of
        None \<Rightarrow> None
      | Some (i, j, g) \<Rightarrow>
          (case re_search_from r s j (j = i) of
             None \<Rightarrow> Some (drop j s)
           | Some (i', j', g') \<Rightarrow> Some (slice s j i')))"

text \<open>Building the patterns.\<close>

definition seqs :: "regex list \<Rightarrow> regex" where
  "seqs rs = foldr Seq rs Eps"

text \<open>\<open>re.escape(l)\<close> under \<open>re.IGNORECASE\<close>: the characters of \<open>l\<close>, case-insensitive.\<close>

definition escape_ci :: "string \<Rightarrow> regex" where
  "escape_ci l = seqs (map LitI l)"

definition lits :: "string \<Rightarrow> regex" where
  "lits l = seqs (map Lit l)"

text \<open>\<open>"|".join(...)\<close> of the escaped labels: an alternation, empty for no label.\<close>

fun alts :: "regex list \<Rightarrow> regex" where
  "alts [] = Eps"
| "alts [r] = r"
| "alts (r # r' # rs) = Alt r (alts (r' # rs))"

definition ws_star :: regex where
  "ws_star = Rep 0 None (Cls isspace)"

definition ws_plus :: regex where
  "ws_plus = Rep 1 None (Cls isspace)"

definition opt :: "regex \<Rightarrow> regex" where
  "opt r = Rep 0 (Some 1) r"

section \<open>Documents\<close>

text \<open>
  The parsed document (the \<open>BeautifulSoup\<close> object) is a tree of elements and text
  nodes; parsing the HTML text is the parser's work and is not modelled, and neither are
  comments and the other special string nodes.  A \<open>soup\<close> is the list of the children
  of the root object.  A node is referred to by its path, the child indices from the
  root; the root object has the empty path.
\<close>

datatype node = Text string | Tag string "node list"

type_synonym path = "nat list"
type_synonym soup = "node list"

text \<open>All nodes below a node, in document order (\<open>descendants\<close>), with their paths.\<close>

fun walk :: "path \<Rightarrow> node \<Rightarrow> (path \<times> node) list"
  and walks :: "path \<Rightarrow> nat \<Rightarrow> node list \<Rightarrow> (path \<times> node) list" where
  "walk p (Text s) = [(p, Text s)]"
| "walk p (Tag n cs) = (p, Tag n cs) # walks p 0 cs"
| "walks p i [] = []"
| "walks p i (c # cs) = walk (p @ [i]) c @ walks p (Suc i) cs"

definition all_nodes :: "soup \<Rightarrow> (path \<times> node) list" where
  "all_nodes soup = walks [] 0 soup"

fun subnode :: "node \<Rightarrow> path \<Rightarrow> node option" where
  "subnode n [] = Some n"
| "subnode (Text s) (i # p) = None"
| "subnode (Tag t cs) (i # p) = (if i < length cs then subnode (cs ! i) p else None)"

definition children :: "node \<Rightarrow> node list" where
  "children n = (case n of Text s \<Rightarrow> [] | Tag t cs \<Rightarrow> cs)"

definition is_tag :: "string option \<Rightarrow> node \<Rightarrow> bool" where
  "is_tag name n =
     (case n of
        Text s \<Rightarrow> False
      | Tag t cs \<Rightarrow> (case name of None \<Rightarrow> True | Some x \<Rightarrow> t = x))"

text \<open>\<open>soup.find_all(names)\<close>: the elements with one of the names, in document order.\<close>

definition find_all :: "soup \<Rightarrow> string list \<Rightarrow> (path \<times> node) list" where
  "find_all soup names =
     filter (\<lambda>(p, n). case n of Text s \<Rightarrow> False | Tag t cs \<Rightarrow> t \<in> set names) (all_nodes soup)"

text \<open>
  \<open>soup.find_all(string=pattern)\<close>: the text nodes in which the pattern is found
  (\<open>pattern.search\<close>), in document order; the search skips an empty string.
\<close>

definition find_all_string :: "soup \<Rightarrow> regex \<Rightarrow> (path \<times> node) list" where
  "find_all_string soup r =
     filter (\<lambda>(p, n). case n of Text s \<Rightarrow> s \<noteq> [] \<and> re_search r s \<noteq> None
                                  | Tag t cs \<Rightarrow> False)
       (all_nodes soup)"

text \<open>
  \<open>el.find_next_sibling(name)\<close>: the first element (with that name, if one is given)
  among the later children of the parent; the root object has no sibling.
\<close>

definition find_next_sibling :: "soup \<Rightarrow> path \<Rightarrow> string option \<Rightarrow> (path \<times> node) option" where
  "find_next_sibling soup p name =
     (if p = [] then None
      else (case subnode (Tag ''[document]'' soup) (butlast p) of
              None \<Rightarrow> None
            | Some par \<Rightarrow>
                find (\<lambda>(q, n). is_tag name n)
                  (drop (Suc (last p))
                     (map (\<lambda>(i, c). (butlast p @ [i], c)) (enumerate 0 (children par))))))"

text \<open>
  \<open>el.find_next()\<close>: the first element after \<open>el\<close> in document order; the
  descendants of \<open>el\<close> come first.
\<close>

definition find_next :: "soup \<Rightarrow> path \<Rightarrow> (path \<times> node) option" where
  "find_next soup p =
     find (\<lambda>(q, n). is_tag None n)
       (if p = [] then all_nodes soup
        else drop 1 (dropWhile (\<lambda>(q, n). q \<noteq> p) (all_nodes soup)))"

text \<open>
  \<open>el.get_text(sep, strip=...)\<close>: the strings below \<open>el\<close> in document order, joined
  by \<open>sep\<close>; with \<open>strip\<close> each one is stripped first and dropped when nothing is left.
\<close>

fun all_strings :: "node \<Rightarrow> string list" where
  "all_strings (Text s) = [s]"
| "all_strings (Tag t cs) = concat (map all_strings cs)"

definition get_text :: "string \<Rightarrow> bool \<Rightarrow> node \<Rightarrow> string" where
  "get_text sep strp n =
     join sep (if strp then filter (\<lambda>s. s \<noteq> []) (map strip (all_strings n))
               else all_strings n)"

text \<open>\<open>soup.title\<close>: the first \<open>title\<close> element of the document.\<close>

definition soup_title :: "soup \<Rightarrow> node option" where
  "soup_title soup = map_option snd (find (\<lambda>(p, n). is_tag (Some ''title'') n) (all_nodes soup))"

section \<open>find\_labeled\_value\<close>

text \<open>The first result of a loop body that returns: the loop goes on while it does not.\<close>

fun first_some :: "('a \<Rightarrow> 'b option) \<Rightarrow> 'a list \<Rightarrow> 'b option" where
  "first_some f [] = None"
| "first_some f (x # xs) = (case f x of Some y \<Rightarrow> Some y | None \<Rightarrow> first_some f xs)"

text \<open>\<open>^\s*(l1|l2|...)\s*:?\s*$\<close>, case-insensitive, the labels escaped.\<close>

definition label_pattern :: "string list \<Rightarrow> regex" where
  "label_pattern labels =
     seqs [Bol, ws_star, Grp 1 (alts (map escape_ci labels)), ws_star,
           opt (Lit (CHR '':'')), ws_star, Eol]"

text \<open>Strategy 1: \<open>dt\<close>/\<open>dd\<close> pairs.\<close>

definition term_matches :: "string list \<Rightarrow> path \<times> node \<Rightarrow> bool" where
  "term_matches labels dt =
     (get_text [] True (snd dt) \<noteq> []
      \<and> re_match (label_pattern labels) (get_text [] True (snd dt)) \<noteq> None)"

definition strategy1_at :: "soup \<Rightarrow> string list \<Rightarrow> path \<times> node \<Rightarrow> string option" where
  "strategy1_at soup labels dt =
     (if term_matches labels dt
      then (case find_next_sibling soup (fst dt) (Some ''dd'') of
              None \<Rightarrow> None
            | Some dd \<Rightarrow> Some (clean_text (Some (get_text '' '' True (snd dd)))))
      else None)"

definition strategy1 :: "soup \<Rightarrow> string list \<Rightarrow> string option" where
  "strategy1 soup labels = first_some (strategy1_at soup labels) (find_all soup [''dt''])"

text \<open>
  Strategy 2: a text node that matches a label; the value is the text of the next sibling
  element of its parent, else of the next element after the parent.  The parent of the
  text node at path \<open>p\<close> is at \<open>butlast p\<close>.
\<close>

definition strategy2_at :: "soup \<Rightarrow> path \<times> node \<Rightarrow> string option" where
  "strategy2_at soup tag =
     (let parent = butlast (fst tag) in
      (case find_next_sibling soup parent None of
         Some sib \<Rightarrow>
           (if clean_text (Some (get_text '' '' True (snd sib))) \<noteq> []
            then Some (clean_text (Some (get_text '' '' True (snd sib))))
            else (case find_next soup parent of
                    Some nxt \<Rightarrow>
                      (if clean_text (Some (get_text '' '' True (snd nxt))) \<noteq> []
                       then Some (clean_text (Some (get_text '' '' True (snd nxt))))
                       else None)
                  | None \<Rightarrow> None))
       | None \<Rightarrow>
           (case find_next soup parent of
              Some nxt \<Rightarrow>
                (if clean_text (Some (get_text '' '' True (snd nxt))) \<noteq> []
                 then Some (clean_text (Some (get_text '' '' True (snd nxt))))
                 else None)
            | None \<Rightarrow> None)))"

definition strategy2 :: "soup \<Rightarrow> string list \<Rightarrow> string option" where
  "strategy2 soup labels =
     first_some (strategy2_at soup) (find_all_string soup (label_pattern labels))"

text \<open>
  Strategy 3: the label inside the text of a \<open>div\<close>, \<open>span\<close>, \<open>li\<close> or \<open>p\<close>; the
  text is split at the label and the second piece is the value.  The patterns are
  \<open>\blabel\b\<close> and \<open>label\s*:?\s*\<close>, case-insensitive.
\<close>

definition word_pattern :: "string \<Rightarrow> regex" where
  "word_pattern label = seqs [WordB, escape_ci label, WordB]"

definition split_pattern :: "string \<Rightarrow> regex" where
  "split_pattern label = seqs [escape_ci label, ws_star, opt (Lit (CHR '':'')), ws_star]"

definition strategy3_label :: "string \<Rightarrow> string \<Rightarrow> string option" where
  "strategy3_label txt label =
     (if re_search (word_pattern label) txt \<noteq> None
      then (case split_second (split_pattern label) txt of
              None \<Rightarrow> None
            | Some after1 \<Rightarrow>
                (if clean_text (Some after1) \<noteq> [] then Some (clean_text (Some after1))
                 else None))
      else None)"

definition strategy3_at :: "string list \<Rightarrow> path \<times> node \<Rightarrow> string option" where
  "strategy3_at labels el =
     first_some (strategy3_label (clean_text (Some (get_text '' '' True (snd el))))) labels"

definition strategy3 :: "soup \<Rightarrow> string list \<Rightarrow> string option" where
  "strategy3 soup labels =
     first_some (strategy3_at labels) (find_all soup [''div'', ''span'', ''li'', ''p''])"

definition find_labeled_value :: "soup \<Rightarrow> string list \<Rightarrow> string" where
  "find_labeled_value soup labels =
     (case strategy1 soup labels of
        Some v \<Rightarrow> v
      | None \<Rightarrow>
          (case strategy2 soup labels of
             Some v \<Rightarrow> v
           | None \<Rightarrow>
               (case strategy3 soup labels of
                  Some v \<Rightarrow> v
                | None \<Rightarrow> [])))"

section \<open>parse\_vehicle\<close>

text \<open>The record that \<open>parse_vehicle\<close> returns: a dictionary with the eight keys.\<close>

record vehicle =
  Stock_No :: string
  Make :: string
  Model :: string
  Year :: string
  Auction_Date :: string
  URL :: string
  ACV_Cost :: string
  Repair_Cost :: string

datatype py_error = IndexError | AttributeError | KeyError | OSError

text \<open>\<open>(\d{5,})\<close>.\<close>

definition stock_pattern :: regex where
  "stock_pattern = Grp 1 (Rep 5 None (Cls isdigit))"

text \<open>\<open>\b(19|20)\d{2}\b\s+([A-Za-z]+)\s+([A-Za-z0-9\- ]{2,})\<close>.\<close>

definition title_pattern :: regex where
  "title_pattern =
     seqs [WordB, Grp 1 (Alt (lits ''19'') (lits ''20'')), Rep 2 (Some 2) (Cls isdigit), WordB,
           ws_plus, Grp 2 (Rep 1 None (Cls isalpha_ascii)), ws_plus,
           Grp 3 (Rep 2 None (Cls ismodel_char))]"

text \<open>\<open>\$?\s?\d{1,3}(?:,\d{3})*(?:\.\d{2})?\<close>.\<close>

definition money :: regex where
  "money =
     seqs [opt (Lit (CHR ''$'')), opt (Cls isspace), Rep 1 (Some 3) (Cls isdigit),
           Rep 0 None (seqs [Lit (CHR '',''), Rep 3 (Some 3) (Cls isdigit)]),
           opt (seqs [Lit (CHR ''.''), Rep 2 (Some 2) (Cls isdigit)])]"

definition stock_labels :: "string list" where
  "stock_labels = [''Stock No'', ''Stock#'', ''Stock Number'', ''Lot #'', ''Lot Number'']"

definition date_labels :: "string list" where
  "date_labels = [''Auction Date'', ''Sale Date'', ''Auction Time'', ''Sale Time'']"

definition acv_labels :: "string list" where
  "acv_labels = [''ACV'', ''Actual Cash Value'']"

definition repair_labels :: "string list" where
  "repair_labels = [''Repair Cost'', ''Estimated Repair Cost'', ''Est. Repair'']"

text \<open>
  The stock number taken from the URL: \<open>""\<close>, or \<open>m.group(1)\<close> of the first match.
\<close>

definition url_stock :: "string \<Rightarrow> string option" where
  "url_stock url =
     (case re_search stock_pattern url of
        None \<Rightarrow> Some []
      | Some m \<Rightarrow> group url m 1)"

text \<open>\<open>clean_text(soup.title.get_text()) if soup.title else ""\<close>.\<close>

definition title_text :: "soup \<Rightarrow> string" where
  "title_text soup =
     (case soup_title soup of
        None \<Rightarrow> []
      | Some t \<Rightarrow> clean_text (Some (get_text [] False t)))"

text \<open>
  The fallback from the title, lines 99 to 106: the new values of \<open>year\<close>, \<open>make\<close> and
  \<open>model\<close>, from the values \<open>year0\<close>, \<open>make0\<close> and \<open>model0\<close> that the labels
  gave.  \<open>split()[0]\<close> raises \<open>IndexError\<close> on an empty list, \<open>.strip()\<close> raises
  \<open>AttributeError\<close> on \<open>None\<close>, and \<open>make\<close> may become \<open>None\<close>.
\<close>

definition title_fallback ::
  "string \<Rightarrow> string \<Rightarrow> string \<Rightarrow> string \<Rightarrow> py_error + (string \<times> string option \<times> string)" where
  "title_fallback title year0 make0 model0 =
     (if \<not> (year0 \<noteq> [] \<and> make0 \<noteq> [] \<and> model0 \<noteq> []) \<and> title \<noteq> [] then
        (case re_search title_pattern title of
           None \<Rightarrow> Inr (year0, Some make0, model0)
         | Some mt \<Rightarrow>
             (case (if year0 \<noteq> [] then Inr year0
                    else (case split_ws (group0 title mt) of
                            [] \<Rightarrow> Inl IndexError
                          | w # ws \<Rightarrow> Inr w)) of
                Inl e \<Rightarrow> Inl e
              | Inr year1 \<Rightarrow>
                  (if model0 \<noteq> [] then
                     Inr (year1, if make0 = [] then group title mt 2 else Some make0, model0)
                   else (case group title mt 3 of
                           None \<Rightarrow> Inl AttributeError
                         | Some g3 \<Rightarrow>
                             Inr (year1, if make0 = [] then group title mt 2 else Some make0,
                                  strip g3)))))
      else Inr (year0, Some make0, model0))"

text \<open>Lines 112 to 119: the first match of the money pattern, when there is one.\<close>

definition normalize_money :: "string \<Rightarrow> string" where
  "normalize_money v = (case re_search money v of None \<Rightarrow> v | Some m \<Rightarrow> group0 v m)"

definition parse_vehicle :: "soup \<Rightarrow> string \<Rightarrow> py_error + vehicle" where
  "parse_vehicle soup url =
     (let page_stock = find_labeled_value soup stock_labels;
          stock_no = (if page_stock \<noteq> [] then Some page_stock else url_stock url)
      in (case title_fallback (title_text soup) (find_labeled_value soup [''Year''])
                (find_labeled_value soup [''Make'']) (find_labeled_value soup [''Model'']) of
            Inl e \<Rightarrow> Inl e
          | Inr (year1, make1, model1) \<Rightarrow>
              Inr \<lparr> Stock_No = clean_text stock_no,
                    Make = clean_text make1,
                    Model = clean_text (Some model1),
                    Year = clean_text (Some year1),
                    Auction_Date = clean_text (Some (find_labeled_value soup date_labels)),
                    URL = url,
                    ACV_Cost =
                      clean_text (Some (normalize_money (find_labeled_value soup acv_labels))),
                    Repair_Cost =
                      clean_text (Some (normalize_money (find_labeled_value soup repair_labels)))
                  \<rparr>))"

section \<open>Post-processing\<close>

text \<open>
  The table that \<open>pd.read_csv(OUTPUT_CSV, dtype=str).fillna("")\<close> returns: column
  names and rows of strings, each row with one cell for each column.  Reading and writing
  the CSV text is the work of \<open>pandas\<close> and is not modelled; in particular the table is
  taken as it is after \<open>read_csv\<close> has turned the empty cells and its markers of a
  missing value into missing values and \<open>fillna\<close> has made them empty strings.
\<close>

record frame =
  columns :: "string list"
  rows :: "string list list"

definition HEADERS :: "string list" where
  "HEADERS = [''Stock No'', ''Make'', ''Model'', ''Year'', ''Auction Date'', ''URL'',
              ''ACV Cost'', ''Repair Cost'']"

fun col_index :: "string list \<Rightarrow> string \<Rightarrow> nat option" where
  "col_index [] c = None"
| "col_index (x # xs) c = (if x = c then Some 0 else map_option Suc (col_index xs c))"

text \<open>The cell of a row in the column named \<open>c\<close>.\<close>

definition cell :: "string list \<Rightarrow> string \<Rightarrow> string list \<Rightarrow> string" where
  "cell cols c r =
     (case col_index cols c of
        None \<Rightarrow> []
      | Some k \<Rightarrow> (if k < length r then r ! k else []))"

text \<open>\<open>df[names]\<close>: the named columns in the given order; \<open>KeyError\<close> when one is missing.\<close>

definition select_columns :: "frame \<Rightarrow> string list \<Rightarrow> py_error + frame" where
  "select_columns df names =
     (if list_all (\<lambda>c. c \<in> set (columns df)) names
      then Inr \<lparr> columns = names,
                 rows = map (\<lambda>r. map (\<lambda>c. cell (columns df) c r) names) (rows df) \<rparr>
      else Inl KeyError)"

text \<open>
  \<open>df.drop_duplicates(subset=[c], keep="first")\<close>: a row is dropped when an earlier row
  has the same value in column \<open>c\<close>.
\<close>

fun drop_dups :: "('a \<Rightarrow> 'k) \<Rightarrow> 'k list \<Rightarrow> 'a list \<Rightarrow> 'a list" where
  "drop_dups key seen [] = []"
| "drop_dups key seen (r # rs) =
     (if key r \<in> set seen then drop_dups key seen rs
      else r # drop_dups key (key r # seen) rs)"

definition drop_duplicates :: "frame \<Rightarrow> string \<Rightarrow> frame" where
  "drop_duplicates df c = df \<lparr> rows := drop_dups (cell (columns df) c) [] (rows df) \<rparr>"

text \<open>
  \<open>df.sort_values(by=cols, ascending=[True, ...])\<close>: the rows in ascending order of the
  list of their values in \<open>cols\<close>.  The values are Python strings, compared code point by
  code point; lists of the same length compare as the tuples do.
\<close>

definition sort_values :: "frame \<Rightarrow> string list \<Rightarrow> frame" where
  "sort_values df cols =
     df \<lparr> rows := sort_key (\<lambda>r. map (\<lambda>c. cell (columns df) c r) cols) (rows df) \<rparr>"

text \<open>Lines 205 to 215, from the table read to the table written.\<close>

definition post_process :: "frame \<Rightarrow> py_error + frame" where
  "post_process df0 =
     (case select_columns df0 HEADERS of
        Inl e \<Rightarrow> Inl e
      | Inr df \<Rightarrow>
          (let df1 = (if ''Stock No'' \<in> set (columns df) then drop_duplicates df ''Stock No''
                      else df);
               sort_cols = filter (\<lambda>c. c \<in> set (columns df1)) [''Auction Date'', ''Stock No''];
               df2 = (if sort_cols \<noteq> [] then sort_values df1 sort_cols else df1)
           in Inr df2))"


section \<open>Auxiliary notions of the specification\<close>

text \<open>The only whitespace characters of the string are spaces.\<close>

definition spaces_only :: "string \<Rightarrow> bool" where
  "spaces_only s = list_all (\<lambda>c. isspace c = (c = CHR '' '')) s"

text \<open>
  The first run of five or more digits of a string, in the words of the specification:
  the digits from the first position at which at least five digits follow one another,
  and the empty string when there is no such position.
\<close>

fun digit_run5 :: "string \<Rightarrow> string" where
  "digit_run5 [] = []"
| "digit_run5 (c # cs) =
     (if 5 \<le> length (takeWhile isdigit (c # cs)) then takeWhile isdigit (c # cs)
      else digit_run5 cs)"


text \<open>The rows of \<open>df[HEADERS]\<close>.\<close>

definition selected_rows :: "frame \<Rightarrow> string list list" where
  "selected_rows df = map (\<lambda>r. map (\<lambda>c. cell (columns df) c r) HEADERS) (rows df)"

definition stock_of :: "string list \<Rightarrow> string" where
  "stock_of r = cell HEADERS ''Stock No'' r"

definition date_of :: "string list \<Rightarrow> string" where
  "date_of r = cell HEADERS ''Auction Date'' r"

section \<open>Example inputs\<close>

definition iaai_url :: string where
  "iaai_url = ''https://ca.iaai.com/vehicle-details/2753101''"

definition stock_page :: soup where
  "stock_page = [Tag ''dl'' [Tag ''dt'' [Text ''Stock No''], Tag ''dd'' [Text ''2753199'']]]"

definition spaced_url :: string where
  "spaced_url = ''https://ca.iaai.com/vehicle-details/a  b''"

definition honda_page :: soup where
  "honda_page =
     [Tag ''html''
        [Tag ''head'' [Tag ''title'' [Text ''2021 Honda Civic - IAAI'']],
         Tag ''body'' [Tag ''dl'' [Tag ''dt'' [Text ''Make:''], Tag ''dd'' [Text ''HONDA'']]]]]"

definition acv_page :: soup where
  "acv_page = [Tag ''dl'' [Tag ''dt'' [Text ''ACV''], Tag ''dd'' [Text ''12345'']]]"

definition approx_page :: soup where
  "approx_page = [Tag ''dl'' [Tag ''dt'' [Text ''ACV''], Tag ''dd'' [Text ''Approx. $12,345.67 USD'']]]"


definition two_terms_page :: soup where
  "two_terms_page =
     [Tag ''span'' [Text ''Year''], Tag ''b'' [Text ''1999''],
      Tag ''dl'' [Tag ''dt'' [Text ''Make''], Tag ''dd'' [Text ''HONDA''],
                  Tag ''dt'' [Text ''Year''], Tag ''dd'' [Text ''2020''],
                  Tag ''dt'' [Text ''Year:''], Tag ''dd'' [Text ''2021'']]]"



definition no_stock_frame :: frame where
  "no_stock_frame =
     \<lparr> columns = HEADERS,
       rows = [['''', ''HONDA'', ''Civic'', ''2021'', ''2024-02-01'', ''u1'', '''', ''''],
               [''2753102'', ''FORD'', ''Focus'', ''2019'', ''2024-01-01'', ''u2'', '''', ''''],
               ['''', ''TOYOTA'', ''Yaris'', ''2020'', ''2024-03-01'', ''u3'', '''', '''']] \<rparr>"



section \<open>Properties of clean\_text\<close>

lemma space_isspace: "isspace (CHR '' '')"
  by (simp add: isspace_def code_point_def)

lemma spaces_only_iff: "spaces_only s = (\<forall>c \<in> set s. isspace c \<longrightarrow> c = CHR '' '')"
  using space_isspace by (auto simp: spaces_only_def list_all_iff)

lemma no_ws_run_Cons:
  "no_ws_run (a # s) = ((s = [] \<or> \<not> (isspace a \<and> isspace (hd s))) \<and> no_ws_run s)"
  by (cases s) auto

lemma sub_ws_spaces_only: "spaces_only (sub_ws s)"
  by (induction s rule: sub_ws.induct) (auto simp: spaces_only_iff)

lemma hd_dropWhile_not: "dropWhile P xs \<noteq> [] \<Longrightarrow> \<not> P (hd (dropWhile P xs))"
  by (induction xs) auto

lemma sub_ws_eq_Nil: "sub_ws s = [] \<longleftrightarrow> s = []"
  by (cases s) auto

lemma hd_sub_ws_isspace: "s \<noteq> [] \<Longrightarrow> isspace (hd (sub_ws s)) = isspace (hd s)"
  by (cases s) (auto simp: space_isspace)

lemma sub_ws_no_run: "no_ws_run (sub_ws s)"
proof (induction s rule: sub_ws.induct)
  case 1
  then show ?case by simp
next
  case (2 c cs)
  show ?case
  proof (cases "isspace c")
    case True
    have "dropWhile isspace cs \<noteq> [] \<Longrightarrow> \<not> isspace (hd (sub_ws (dropWhile isspace cs)))"
      using hd_dropWhile_not [of isspace cs] by (simp add: hd_sub_ws_isspace)
    with True 2 show ?thesis
      by (auto simp: no_ws_run_Cons sub_ws_eq_Nil)
  next
    case False
    with 2 show ?thesis
      by (auto simp: no_ws_run_Cons sub_ws_eq_Nil hd_sub_ws_isspace)
  qed
qed

lemma no_ws_run_append_D1: "no_ws_run (xs @ ys) \<Longrightarrow> no_ws_run xs"
  by (induction xs rule: no_ws_run.induct) auto

lemma no_ws_run_append_D2: "no_ws_run (xs @ ys) \<Longrightarrow> no_ws_run ys"
  by (induction xs) (auto simp: no_ws_run_Cons)

lemma no_ws_run_dropWhile: "no_ws_run s \<Longrightarrow> no_ws_run (dropWhile P s)"
  using no_ws_run_append_D2 [of "takeWhile P s" "dropWhile P s"] by simp

lemma strip_decomp: "\<exists>pre suf. s = pre @ strip s @ suf"
proof -
  let ?d = "dropWhile isspace s"
  have 1: "s = takeWhile isspace s @ ?d" by simp
  have "rev ?d = takeWhile isspace (rev ?d) @ dropWhile isspace (rev ?d)" by simp
  then have "?d = rev (dropWhile isspace (rev ?d)) @ rev (takeWhile isspace (rev ?d))"
    by (metis rev_append rev_rev_ident)
  then have "?d = strip s @ rev (takeWhile isspace (rev ?d))"
    by (simp add: strip_def)
  with 1 show ?thesis by metis
qed

lemma strip_no_run: "no_ws_run s \<Longrightarrow> no_ws_run (strip s)"
  using strip_decomp [of s] by (metis no_ws_run_append_D1 no_ws_run_append_D2)

lemma set_strip: "set (strip s) \<subseteq> set s"
  using strip_decomp [of s] by (metis Un_upper1 Un_upper2 set_append subset_trans)

lemma strip_spaces_only: "spaces_only s \<Longrightarrow> spaces_only (strip s)"
  using set_strip [of s] by (auto simp: spaces_only_iff)

lemma strip_ends: "strip s \<noteq> [] \<Longrightarrow> \<not> isspace (hd (strip s)) \<and> \<not> isspace (last (strip s))"
proof -
  assume a: "strip s \<noteq> []"
  let ?d = "dropWhile isspace s"
  let ?e = "dropWhile isspace (rev ?d)"
  from a have e: "?e \<noteq> []" by (simp add: strip_def)
  then have l: "\<not> isspace (hd ?e)" by (rule hd_dropWhile_not)
  have "last (strip s) = hd ?e" using e by (simp add: strip_def last_rev)
  with l have last: "\<not> isspace (last (strip s))" by simp
  have d: "?d \<noteq> []"
  proof
    assume "?d = []"
    then have "?e = []" by (metis dropWhile.simps(1) rev.simps(1))
    with e show False by (rule notE)
  qed
  then have hd: "\<not> isspace (hd ?d)" by (rule hd_dropWhile_not)
  have "rev ?d = takeWhile isspace (rev ?d) @ ?e" by simp
  then have "?d = rev ?e @ rev (takeWhile isspace (rev ?d))"
    by (metis rev_append rev_rev_ident)
  then have "hd ?d = hd (rev ?e)" using e by (metis hd_append2 rev_is_Nil_conv)
  with hd have "\<not> isspace (hd (strip s))" by (simp add: strip_def)
  with last show ?thesis by simp
qed

lemma ws_normalized_alt:
  "ws_normalized s = (no_ws_run s \<and> (s = [] \<or> (\<not> isspace (hd s) \<and> \<not> isspace (last s))))"
  by (cases s) (auto simp: ws_normalized_def)

lemma clean_text_normalized: "ws_normalized (clean_text v)"
proof (cases v)
  case None
  then show ?thesis by (simp add: clean_text_def ws_normalized_def)
next
  case (Some s)
  then show ?thesis
    using strip_ends [of "sub_ws s"] strip_no_run [OF sub_ws_no_run, of s]
    by (auto simp: clean_text_def ws_normalized_alt)
qed

lemma clean_text_spaces_only: "spaces_only (clean_text v)"
  by (cases v) (auto simp: clean_text_def strip_spaces_only sub_ws_spaces_only, simp add: spaces_only_iff)

lemma sub_ws_id: "no_ws_run s \<Longrightarrow> spaces_only s \<Longrightarrow> sub_ws s = s"
proof (induction s rule: sub_ws.induct)
  case 1
  then show ?case by simp
next
  case (2 c cs)
  show ?case
  proof (cases "isspace c")
    case True
    with 2(3,4) have c: "c = CHR '' ''" by (simp add: spaces_only_iff)
    from True 2(3) have "cs = [] \<or> \<not> isspace (hd cs)" by (simp add: no_ws_run_Cons)
    then have d: "dropWhile isspace cs = cs" by (cases cs) auto
    from 2(3) have n: "no_ws_run cs" by (simp add: no_ws_run_Cons)
    from 2(4) have s: "spaces_only cs" by (simp add: spaces_only_iff)
    from 2(1) [OF True] n s d have "sub_ws cs = cs" by simp
    with True c d show ?thesis by simp
  next
    case False
    from 2(3) have n: "no_ws_run cs" by (simp add: no_ws_run_Cons)
    from 2(4) have s: "spaces_only cs" by (simp add: spaces_only_iff)
    from 2(2) [OF False n s] False show ?thesis by simp
  qed
qed

lemma strip_id: "s = [] \<or> (\<not> isspace (hd s) \<and> \<not> isspace (last s)) \<Longrightarrow> strip s = s"
proof (cases s)
  case Nil
  then show ?thesis by (simp add: strip_def)
next
  case (Cons a as)
  assume "s = [] \<or> (\<not> isspace (hd s) \<and> \<not> isspace (last s))"
  with Cons have h: "\<not> isspace a" and l: "\<not> isspace (last s)" by auto
  from h Cons have 1: "dropWhile isspace s = s" by simp
  from Cons obtain bs b where sb: "s = bs @ [b]"
    by (metis rev_exhaust list.distinct(1))
  with l have "\<not> isspace b" by simp
  with sb have "dropWhile isspace (rev s) = rev s" by simp
  with 1 show ?thesis by (simp add: strip_def)
qed

lemma clean_text_id: "ws_normalized s \<Longrightarrow> spaces_only s \<Longrightarrow> clean_text (Some s) = s"
  by (simp add: clean_text_def sub_ws_id strip_id ws_normalized_alt)

lemma clean_text_idem: "clean_text (Some (clean_text v)) = clean_text v"
  by (rule clean_text_id [OF clean_text_normalized clean_text_spaces_only])

section \<open>Properties of the matcher\<close>

lemma rep_unfold:
  "hi \<noteq> Some 0 \<Longrightarrow>
   rep f n lo hi st =
     concat (map (\<lambda>st'. if fst st < fst st' \<and> fst st' \<le> n
                          then rep f n (lo - 1) (map_option (\<lambda>h. h - 1) hi) st' else [])
               (f st))
     @ (if lo = 0 then [st] else [])"
  by (subst rep.simps) simp

lemma rep_cases:
  assumes "st' \<in> set (rep f n lo hi st)"
  obtains (stop) "st' = st"
  | (round) x where "hi \<noteq> Some 0" "x \<in> set (f st)" "fst st < fst x" "fst x \<le> n"
      "st' \<in> set (rep f n (lo - 1) (map_option (\<lambda>h. h - 1) hi) x)"
proof (cases "hi = Some 0")
  case True
  with assms have "st' = st" by (subst (asm) rep.simps) simp
  then show ?thesis by (rule stop)
next
  case False
  let ?G = "\<lambda>st'. if fst st < fst st' \<and> fst st' \<le> n
      then rep f n (lo - 1) (map_option (\<lambda>h. h - 1) hi) st' else []"
  from assms have "st' \<in> set (concat (map ?G (f st))) \<or> st' \<in> set (if lo = 0 then [st] else [])"
    by (simp only: rep_unfold [OF False] set_append Un_iff)
  then show ?thesis
  proof
    assume "st' \<in> set (concat (map ?G (f st)))"
    then obtain x where x: "x \<in> set (f st)" "st' \<in> set (?G x)" by auto
    show ?thesis
    proof (cases "fst st < fst x \<and> fst x \<le> n")
      case True
      with x(2) have "st' \<in> set (rep f n (lo - 1) (map_option (\<lambda>h. h - 1) hi) x)" by simp
      with False x(1) True show ?thesis by (intro round) simp_all
    next
      case False
      with x(2) show ?thesis by simp
    qed
  next
    assume "st' \<in> set (if lo = 0 then [st] else [])"
    then have "st' = st" by (cases "lo = 0") simp_all
    then show ?thesis by (rule stop)
  qed
qed

lemma rep_mono:
  assumes "\<And>st st'. st' \<in> set (f st) \<Longrightarrow> fst st \<le> fst st'"
  shows "st' \<in> set (rep f n lo hi st) \<Longrightarrow> fst st \<le> fst st'"
proof (induction f n lo hi st rule: rep.induct)
  case (1 f n lo hi st)
  from 1(2) show ?case
  proof (cases rule: rep_cases)
    case stop
    then show ?thesis by simp
  next
    case (round x)
    from 1(1) [OF round(1,2) _ round(5)] round(3,4) show ?thesis by simp
  qed
qed

lemma ends_mono: "st' \<in> set (ends r s st) \<Longrightarrow> fst st \<le> fst st'"
proof (induction r arbitrary: st st')
  case Eps
  then show ?case by simp
next
  case (Lit c)
  then show ?case by (cases st) (simp split: if_splits)
next
  case (LitI c)
  then show ?case by (cases st) (simp split: if_splits)
next
  case (Cls P)
  then show ?case by (cases st) (simp split: if_splits)
next
  case Bol
  then show ?case by (cases st) (simp split: if_splits)
next
  case Eol
  then show ?case by (cases st) (simp split: if_splits)
next
  case WordB
  then show ?case by (cases st) (simp split: if_splits)
next
  case (Seq r1 r2)
  from Seq(3) obtain x where "x \<in> set (ends r1 s st)" "st' \<in> set (ends r2 s x)" by auto
  with Seq(1,2) show ?case by (blast intro: order_trans)
next
  case (Alt r1 r2)
  from Alt(3) have "st' \<in> set (ends r1 s st) \<or> st' \<in> set (ends r2 s st)" by simp
  with Alt(1,2) show ?case by blast
next
  case (Rep lo hi r)
  from Rep(2) have "st' \<in> set (rep (ends r s) (length s) lo hi st)" by simp
  then show ?case using Rep(1) by (rule rep_mono [rotated])
next
  case (Grp k r)
  obtain i g where st: "st = (i, g)" by (cases st)
  with Grp(2) obtain j g' where "(j, g') \<in> set (ends r s (i, g))" "st' = (j, (k, i, j) # g')"
    by auto
  with Grp(1) [of "(j, g')" "(i, g)"] st show ?case by simp
qed

lemma rev_upt_shift:
  "map (\<lambda>k. (i + k, g)) (rev [lo ..< Suc (Suc m)]) =
   map (\<lambda>k. (Suc i + k, g :: groups)) (rev [lo - 1 ..< Suc m]) @ (if lo = 0 then [(i, g)] else [])"
proof (cases lo)
  case 0
  have e: "[0 ..< Suc (Suc m)] = 0 # map Suc [0 ..< Suc m]"
    by (metis map_Suc_upt upt_conv_Cons zero_less_Suc)
  show ?thesis unfolding 0 e by (simp del: upt_Suc add: rev_map o_def)
next
  case (Suc l)
  have e: "[Suc l ..< Suc (Suc m)] = map Suc [l ..< Suc m]"
    by (simp only: map_Suc_upt)
  show ?thesis unfolding Suc e by (simp del: upt_Suc add: rev_map o_def)
qed

lemma rep_cls_None:
  "i \<le> length s \<Longrightarrow>
   rep (ends (Cls P) s) (length s) lo None (i, g) =
     map (\<lambda>k. (i + k, g)) (rev [lo ..< Suc (length (takeWhile P (drop i s)))])"
proof (induction "length s - i" arbitrary: i lo)
  case 0
  then have "drop i s = []" by simp
  then show ?case using 0
    by (subst rep.simps) (simp)
next
  case (Suc d)
  then have il: "i < length s" by simp
  then have dr: "drop i s = s ! i # drop (Suc i) s" by (simp add: Cons_nth_drop_Suc)
  show ?case
  proof (cases "P (s ! i)")
    case True
    let ?m = "length (takeWhile P (drop (Suc i) s))"
    have ih: "rep (ends (Cls P) s) (length s) (lo - 1) None (Suc i, g) =
        map (\<lambda>k. (Suc i + k, g)) (rev [lo - 1 ..< Suc ?m])"
      using Suc(1) [of "Suc i" "lo - 1"] Suc(2) il by simp
    have m: "length (takeWhile P (drop i s)) = Suc ?m" using dr True by simp
    have "rep (ends (Cls P) s) (length s) lo None (i, g) =
       rep (ends (Cls P) s) (length s) (lo - 1) None (Suc i, g) @ (if lo = 0 then [(i, g)] else [])"
      using il True by (subst rep.simps) simp
    also have "\<dots> = map (\<lambda>k. (Suc i + k, g)) (rev [lo - 1 ..< Suc ?m]) @ (if lo = 0 then [(i, g)] else [])"
      by (simp only: ih)
    also have "\<dots> = map (\<lambda>k. (i + k, g)) (rev [lo ..< Suc (Suc ?m)])"
      by (rule rev_upt_shift [symmetric])
    finally show ?thesis by (simp only: m)
  next
    case False
    then show ?thesis using il dr by (subst rep.simps) simp
  qed
qed

lemma match_at_stock:
  assumes "i \<le> length s"
  shows "match_at stock_pattern s i False =
     (if 5 \<le> length (takeWhile isdigit (drop i s))
      then Some (i, i + length (takeWhile isdigit (drop i s)),
                 [(1, i, i + length (takeWhile isdigit (drop i s)))])
      else None)"
proof -
  let ?m = "length (takeWhile isdigit (drop i s))"
  have e: "ends stock_pattern s (i, []) =
      map (\<lambda>k. (i + k, [(1, i, i + k)])) (rev [5 ..< Suc ?m])"
  proof -
    have "ends stock_pattern s (i, []) =
        map (\<lambda>(j, g'). (j, (1, i, j) # g')) (rep (ends (Cls isdigit) s) (length s) 5 None (i, []))"
      by (simp only: stock_pattern_def ends.simps prod.case)
    also have "\<dots> = map (\<lambda>(j, g'). (j, (1, i, j) # g'))
        (map (\<lambda>k. (i + k, [])) (rev [5 ..< Suc ?m]))"
      using assms by (simp only: rep_cls_None)
    also have "\<dots> = map (\<lambda>k. (i + k, [(1, i, i + k)])) (rev [5 ..< Suc ?m])"
      by (simp only: map_map o_def prod.case)
    finally show ?thesis .
  qed
  show ?thesis
  proof (cases "5 \<le> ?m")
    case True
    then have "[5 ..< Suc ?m] = [5 ..< ?m] @ [?m]" by simp
    then have "rev [5 ..< Suc ?m] = ?m # rev [5 ..< ?m]" by simp
    with True show ?thesis by (simp add: match_at_def e del: upt_Suc)
  next
    case False
    then have "[5 ..< Suc ?m] = []" by simp
    with False show ?thesis by (simp add: match_at_def e del: upt_Suc)
  qed
qed

lemma match_at_ws_plus:
  assumes "i \<le> length s"
  shows "match_at ws_plus s i False =
     (if 1 \<le> length (takeWhile isspace (drop i s))
      then Some (i, i + length (takeWhile isspace (drop i s)), [])
      else None)"
proof -
  let ?m = "length (takeWhile isspace (drop i s))"
  have e: "ends ws_plus s (i, []) = map (\<lambda>k. (i + k, [])) (rev [1 ..< Suc ?m])"
    unfolding ws_plus_def ends.simps(10) using assms by (rule rep_cls_None)
  show ?thesis
  proof (cases "1 \<le> ?m")
    case True
    then have "[1 ..< Suc ?m] = [1 ..< ?m] @ [?m]" by simp
    then have "rev [1 ..< Suc ?m] = ?m # rev [1 ..< ?m]" by simp
    with True show ?thesis by (simp add: match_at_def e del: upt_Suc)
  next
    case False
    then have "[1 ..< Suc ?m] = []" by simp
    with False show ?thesis by (simp add: match_at_def e del: upt_Suc)
  qed
qed

lemma scan_stock:
  "i \<le> length s \<Longrightarrow> k = length s - i \<Longrightarrow>
   (case scan stock_pattern s i k False of None \<Rightarrow> Some [] | Some m \<Rightarrow> group s m 1)
     = Some (digit_run5 (drop i s))"
proof (induction k arbitrary: i)
  case 0
  then have "drop i s = []" by simp
  with 0(1) show ?case by (simp add: match_at_stock)
next
  case (Suc k)
  then have il: "i < length s" by simp
  then have dr: "drop i s = s ! i # drop (Suc i) s" by (simp add: Cons_nth_drop_Suc)
  let ?m = "length (takeWhile isdigit (drop i s))"
  show ?case
  proof (cases "5 \<le> ?m")
    case True
    have d: "digit_run5 (drop i s) = takeWhile isdigit (drop i s)"
      using True by (subst dr, subst digit_run5.simps) (simp only: dr [symmetric] if_True)
    have sl: "slice s i (i + ?m) = takeWhile isdigit (drop i s)"
      by (simp add: slice_def takeWhile_eq_take [symmetric])
    have "scan stock_pattern s i (Suc k) False = Some (i, i + ?m, [(1, i, i + ?m)])"
      using True Suc(2) by (simp add: match_at_stock)
    then show ?thesis by (simp add: group_def sl d)
  next
    case False
    have d: "digit_run5 (drop i s) = digit_run5 (drop (Suc i) s)"
      using False by (subst dr, subst digit_run5.simps) (simp only: dr [symmetric] if_False)
    have "scan stock_pattern s i (Suc k) False = scan stock_pattern s (Suc i) k False"
      using False Suc(2) by (simp add: match_at_stock)
    moreover have k: "k = length s - Suc i" using Suc(3) by simp
    from il have "Suc i \<le> length s" by simp
    then have "(case scan stock_pattern s (Suc i) k False of None \<Rightarrow> Some []
        | Some m \<Rightarrow> group s m 1) = Some (digit_run5 (drop (Suc i) s))"
      using k by (rule Suc(1))
    ultimately show ?thesis by (simp only: d)
  qed
qed

lemma url_stock_digit_run5: "url_stock url = Some (digit_run5 url)"
  using scan_stock [of 0 url "length url"]
  by (simp add: url_stock_def re_search_def re_search_from_def)

lemma digit_run5_digits: "c \<in> set (digit_run5 s) \<Longrightarrow> isdigit c"
proof (induction s)
  case Nil
  then show ?case by simp
next
  case (Cons a s)
  show ?case
  proof (cases "5 \<le> length (takeWhile isdigit (a # s))")
    case True
    with Cons(2) have "c \<in> set (takeWhile isdigit (a # s))" by (simp only: digit_run5.simps if_True)
    then show ?thesis by (rule set_takeWhileD [THEN conjunct2])
  next
    case False
    with Cons(2) have "c \<in> set (digit_run5 s)" by (simp only: digit_run5.simps if_False)
    then show ?thesis by (rule Cons(1))
  qed
qed

lemma match_at_SomeD:
  "match_at r s i adv = Some (i', j, g) \<Longrightarrow> i' = i \<and> (j, g) \<in> set (ends r s (i, []))"
proof -
  assume a: "match_at r s i adv = Some (i', j, g)"
  let ?xs = "filter (\<lambda>(j, g). \<not> (adv \<and> j = i)) (ends r s (i, []))"
  from a obtain rest where "?xs = (j, g) # rest" and i: "i' = i"
    by (auto simp: match_at_def split: list.splits)
  then have "(j, g) \<in> set ?xs" by simp
  then have "(j, g) \<in> set (ends r s (i, []))" by simp
  with i show ?thesis by simp
qed

lemma scan_SomeD:
  "scan r s i k adv = Some (i', j, g) \<Longrightarrow> i \<le> i' \<and> i' \<le> i + k \<and> (j, g) \<in> set (ends r s (i', []))"
proof (induction k arbitrary: i adv)
  case 0
  then show ?case using match_at_SomeD [of r s i adv i' j g] by simp
next
  case (Suc k)
  show ?case
  proof (cases "match_at r s i adv")
    case None
    with Suc(2) have "scan r s (Suc i) k False = Some (i', j, g)" by simp
    from Suc(1) [OF this] show ?thesis by simp
  next
    case (Some m)
    with Suc(2) have "match_at r s i adv = Some (i', j, g)" by simp
    from match_at_SomeD [OF this] show ?thesis by simp
  qed
qed

lemma re_search_SomeD:
  "re_search r s = Some (i, j, g) \<Longrightarrow> i \<le> length s \<and> (j, g) \<in> set (ends r s (i, []))"
  using scan_SomeD [of r s 0 "length s" False i j g]
  by (simp add: re_search_def re_search_from_def)

lemma ends_Seq_post:
  assumes "\<And>st st'. st' \<in> set (ends b s st) \<Longrightarrow> Q st'"
  shows "st' \<in> set (ends (Seq a b) s st) \<Longrightarrow> Q st'"
proof -
  assume "st' \<in> set (ends (Seq a b) s st)"
  then obtain x where "x \<in> set (ends a s st)" "st' \<in> set (ends b s x)"
    unfolding ends.simps set_concat set_map by blast
  then show ?thesis using assms by blast
qed

lemma ends_Grp_last:
  "st' \<in> set (ends (Seq (Grp k x) Eps) s st) \<Longrightarrow> \<exists>a b g'. snd st' = (k, a, b) # g'"
  by (cases st) auto

lemma ends_Seq_mid:
  assumes "st' \<in> set (ends (Seq a b) s st)"
  obtains x where "x \<in> set (ends a s st)" "st' \<in> set (ends b s x)"
  using assms unfolding ends.simps set_concat set_map by blast

lemma ends_seqs_last:
  "st' \<in> set (ends (seqs (rs @ [Grp k x])) s st) \<Longrightarrow> \<exists>a b g'. snd st' = (k, a, b) # g'"
proof (induction rs arbitrary: st)
  case Nil
  then have "st' \<in> set (ends (Seq (Grp k x) Eps) s st)" by (simp add: seqs_def)
  then show ?case by (rule ends_Grp_last)
next
  case (Cons r rs)
  then have "st' \<in> set (ends (Seq r (seqs (rs @ [Grp k x]))) s st)" by (simp add: seqs_def)
  then obtain y where "st' \<in> set (ends (seqs (rs @ [Grp k x])) s y)" by (rule ends_Seq_mid)
  then show ?case by (rule Cons.IH)
qed

lemma title_pattern_group3:
  assumes "st' \<in> set (ends title_pattern s st)"
  shows "\<exists>a b g'. snd st' = (3, a, b) # g'"
proof -
  have e: "title_pattern =
      seqs ([WordB, Grp 1 (Alt (lits ''19'') (lits ''20'')), Rep 2 (Some 2) (Cls isdigit), WordB,
             ws_plus, Grp 2 (Rep 1 None (Cls isalpha_ascii)), ws_plus]
            @ [Grp 3 (Rep 2 None (Cls ismodel_char))])"
    by (simp add: title_pattern_def)
  from assms show ?thesis unfolding e by (rule ends_seqs_last)
qed

lemma ends_Lit_first:
  assumes "st' \<in> set (ends (Seq (Lit c) r) s (i, g))"
  shows "i < length s \<and> s ! i = c \<and> i < fst st'"
proof -
  from assms obtain x where x: "x \<in> set (ends (Lit c) s (i, g))" "st' \<in> set (ends r s x)"
    by (rule ends_Seq_mid)
  from x(1) have c: "i < length s \<and> s ! i = c" and xi: "x = (Suc i, g)"
    by (simp_all split: if_splits)
  from ends_mono [OF x(2)] xi have "Suc i \<le> fst st'" by simp
  with c show ?thesis by simp
qed

lemma title_pattern_start:
  assumes "(j, g) \<in> set (ends title_pattern s (i, []))"
  shows "i < length s \<and> (s ! i = CHR ''1'' \<or> s ! i = CHR ''2'') \<and> i < j"
proof -
  let ?A = "Grp 1 (Alt (lits ''19'') (lits ''20''))"
  obtain rest where tp: "title_pattern = Seq WordB (Seq ?A rest)"
    by (simp add: title_pattern_def seqs_def)
  from assms [unfolded tp] obtain x where
    x: "x \<in> set (ends WordB s (i, []))" "(j, g) \<in> set (ends (Seq ?A rest) s x)"
    by (rule ends_Seq_mid)
  from x(1) have xi: "x = (i, [])" by (simp split: if_splits)
  from x(2) [unfolded xi] obtain y where
    y: "y \<in> set (ends ?A s (i, []))" "(j, g) \<in> set (ends rest s y)"
    by (rule ends_Seq_mid)
  have l19: "lits ''19'' = Seq (Lit (CHR ''1'')) (Seq (Lit (CHR ''9'')) Eps)"
    by (simp add: lits_def seqs_def)
  have l20: "lits ''20'' = Seq (Lit (CHR ''2'')) (Seq (Lit (CHR ''0'')) Eps)"
    by (simp add: lits_def seqs_def)
  from y(1) obtain z where z: "fst z = fst y"
    "z \<in> set (ends (lits ''19'') s (i, [])) \<or> z \<in> set (ends (lits ''20'') s (i, []))"
    by (simp only: ends.simps prod.case set_map set_append) force
  from z(2) have "i < length s \<and> (s ! i = CHR ''1'' \<or> s ! i = CHR ''2'') \<and> i < fst z"
    unfolding l19 l20 using ends_Lit_first by blast
  moreover from ends_mono [OF y(2)] have "fst y \<le> j" by simp
  ultimately show ?thesis using z(1) by simp
qed

lemma split_ws_nonempty: "s \<noteq> [] \<Longrightarrow> \<not> isspace (hd s) \<Longrightarrow> split_ws s \<noteq> []"
  by (subst split_ws.simps, cases s) simp_all

lemma one_two_not_space: "c = CHR ''1'' \<or> c = CHR ''2'' \<Longrightarrow> \<not> isspace c"
  by (auto simp: isspace_def code_point_def)

lemma title_match_ok:
  assumes "re_search title_pattern t = Some mt"
  shows "split_ws (group0 t mt) \<noteq> [] \<and> group t mt 3 \<noteq> None"
proof -
  obtain i j g where mt: "mt = (i, j, g)" by (cases mt)
  from re_search_SomeD [OF assms [unfolded mt]]
  have m: "(j, g) \<in> set (ends title_pattern t (i, []))" by simp
  from title_pattern_start [OF m]
  have s: "i < length t" "t ! i = CHR ''1'' \<or> t ! i = CHR ''2''" "i < j" by simp_all
  from s(3) obtain d where d: "j - i = Suc d" by (cases "j - i") simp_all
  from s(1) have "drop i t = t ! i # drop (Suc i) t" by (simp add: Cons_nth_drop_Suc)
  with d have "group0 t mt = t ! i # take d (drop (Suc i) t)"
    by (simp add: group0_def mt slice_def)
  with one_two_not_space [OF s(2)] have "split_ws (group0 t mt) \<noteq> []"
    by (simp add: split_ws_nonempty)
  moreover from title_pattern_group3 [OF m] have "group t mt 3 \<noteq> None"
    by (auto simp: group_def mt)
  ultimately show ?thesis by simp
qed

lemma title_fallback_total: "\<exists>y mk md. title_fallback t y0 mk0 md0 = Inr (y, mk, md)"
proof (cases "re_search title_pattern t")
  case None
  then show ?thesis by (simp add: title_fallback_def)
next
  case (Some mt)
  from title_match_ok [OF Some] obtain w ws g3 where
    "split_ws (group0 t mt) = w # ws" "group t mt 3 = Some g3"
    by (cases "split_ws (group0 t mt)") auto
  with Some show ?thesis by (simp add: title_fallback_def)
qed

lemma title_fallback_keep:
  assumes "title_fallback t y0 mk0 md0 = Inr (y, mk, md)"
  shows "(y0 \<noteq> [] \<longrightarrow> y = y0) \<and> (mk0 \<noteq> [] \<longrightarrow> mk = Some mk0) \<and> (md0 \<noteq> [] \<longrightarrow> md = md0)"
  using assms
  by (auto simp: title_fallback_def split: if_splits option.splits list.splits sum.splits)

lemma title_fallback_skip:
  assumes "title_fallback t y0 mk0 md0 = Inr (y, mk, md)"
    and "(y0 \<noteq> [] \<and> mk0 \<noteq> [] \<and> md0 \<noteq> []) \<or> t = []"
  shows "y = y0 \<and> mk = Some mk0 \<and> md = md0"
  using assms by (auto simp: title_fallback_def)

lemma first_some_SomeD: "first_some f xs = Some y \<Longrightarrow> \<exists>x \<in> set xs. f x = Some y"
  by (induction xs) (auto split: option.splits)

lemma strategy1_clean: "strategy1 soup labels = Some v \<Longrightarrow> clean_text (Some v) = v"
  by (auto simp: strategy1_def strategy1_at_def clean_text_idem dest!: first_some_SomeD split: if_splits option.splits)

lemma strategy2_clean: "strategy2 soup labels = Some v \<Longrightarrow> clean_text (Some v) = v"
  by (auto simp: strategy2_def strategy2_at_def Let_def clean_text_idem dest!: first_some_SomeD split: if_splits option.splits)

lemma strategy3_clean: "strategy3 soup labels = Some v \<Longrightarrow> clean_text (Some v) = v"
  by (auto simp: strategy3_def strategy3_at_def strategy3_label_def clean_text_idem dest!: first_some_SomeD split: if_splits option.splits)

lemma clean_text_Nil: "clean_text (Some []) = []"
  by (simp add: clean_text_def strip_def)

lemma find_labeled_value_idem:
  "clean_text (Some (find_labeled_value soup labels)) = find_labeled_value soup labels"
  using strategy1_clean [of soup labels] strategy2_clean [of soup labels] strategy3_clean [of soup labels]
  by (simp add: find_labeled_value_def clean_text_Nil split: option.splits)

section \<open>Properties of parse\_vehicle\<close>

lemma digit_not_space: "isdigit c \<Longrightarrow> \<not> isspace c"
  by (auto simp: isdigit_def isspace_def Let_def)

lemma no_ws_no_run: "\<forall>c \<in> set s. \<not> isspace c \<Longrightarrow> no_ws_run s"
  by (induction s) (auto simp: no_ws_run_Cons)

lemma clean_text_no_ws: "\<forall>c \<in> set s. \<not> isspace c \<Longrightarrow> clean_text (Some s) = s"
proof (rule clean_text_id)
  assume a: "\<forall>c \<in> set s. \<not> isspace c"
  then show "spaces_only s" by (simp add: spaces_only_iff)
  from a show "ws_normalized s"
    by (cases s) (auto simp: ws_normalized_alt no_ws_no_run simp del: no_ws_run.simps)
qed

lemma clean_text_digit_run5: "clean_text (Some (digit_run5 url)) = digit_run5 url"
  by (rule clean_text_no_ws) (auto dest: digit_run5_digits digit_not_space)

lemma parse_vehicle_Inr:
  "\<exists>y mk md.
     title_fallback (title_text soup) (find_labeled_value soup [''Year''])
       (find_labeled_value soup [''Make'']) (find_labeled_value soup [''Model'']) = Inr (y, mk, md)
     \<and> parse_vehicle soup url =
         Inr \<lparr> Stock_No = (if find_labeled_value soup stock_labels \<noteq> []
                             then find_labeled_value soup stock_labels else digit_run5 url),
               Make = clean_text mk,
               Model = clean_text (Some md),
               Year = clean_text (Some y),
               Auction_Date = find_labeled_value soup date_labels,
               URL = url,
               ACV_Cost = clean_text (Some (normalize_money (find_labeled_value soup acv_labels))),
               Repair_Cost =
                 clean_text (Some (normalize_money (find_labeled_value soup repair_labels))) \<rparr>"
proof -
  obtain y mk md where tf:
    "title_fallback (title_text soup) (find_labeled_value soup [''Year''])
       (find_labeled_value soup [''Make'']) (find_labeled_value soup [''Model'']) = Inr (y, mk, md)"
    using title_fallback_total by blast
  show ?thesis
    by (intro exI conjI, rule tf)
       (simp add: parse_vehicle_def tf Let_def url_stock_digit_run5 clean_text_digit_run5
          find_labeled_value_idem)
qed

section \<open>The claims\<close>

lemma parse_vehicle_ymm:
  assumes "title_fallback (title_text soup) (find_labeled_value soup [''Year''])
       (find_labeled_value soup [''Make'']) (find_labeled_value soup [''Model'']) = Inr (y, mk, md)"
  shows "map_sum id Year (parse_vehicle soup url) = Inr (clean_text (Some y))
     \<and> map_sum id Make (parse_vehicle soup url) = Inr (clean_text mk)
     \<and> map_sum id Model (parse_vehicle soup url) = Inr (clean_text (Some md))"
  by (simp add: parse_vehicle_def Let_def assms)

lemma honda_clean:
  "clean_text (Some ''2021'') = ''2021''" "clean_text (Some ''Civic - IAAI'') = ''Civic - IAAI''"
  "clean_text (Some ''HONDA'') = ''HONDA''"
  by code_simp+

lemma find_labeled_value_empty: "find_labeled_value [] labels = []"
  by (simp add: find_labeled_value_def strategy1_def strategy2_def strategy3_def find_all_def
      find_all_string_def all_nodes_def)

lemma title_text_empty: "title_text [] = []"
  by (simp add: title_text_def soup_title_def all_nodes_def)

lemma normalize_money_empty: "normalize_money [] = []"
  by code_simp

lemma stock_page_value: "find_labeled_value stock_page stock_labels = ''2753199''"
  by code_simp

lemma iaai_url_digits: "digit_run5 iaai_url = ''2753101''"
  by code_simp

lemma honda_make: "find_labeled_value honda_page [''Make''] = ''HONDA''"
  by code_simp

lemma honda_year: "find_labeled_value honda_page [''Year''] = []"
  by code_simp

lemma honda_model: "find_labeled_value honda_page [''Model''] = []"
  by code_simp

lemma honda_title: "title_text honda_page = ''2021 Honda Civic - IAAI''"
  by code_simp

lemma honda_fallback:
  "title_fallback ''2021 Honda Civic - IAAI'' [] ''HONDA'' [] = Inr (''2021'', Some ''HONDA'', ''Civic - IAAI'')"
  by code_simp

text \<open>
  Claim C2, as amended.  For every document and URL \<open>parse_vehicle\<close> returns a record, and
  the seven fields Stock No, Make, Model, Year, Auction Date, ACV Cost and Repair Cost of it
  are whitespace-normalized: no two whitespace characters in a row and none at either end.
  The URL field is the URL as it was given.
\<close>

theorem record_fields_normalized:
  "\<exists>r. parse_vehicle soup url = Inr r
     \<and> ws_normalized (Stock_No r) \<and> ws_normalized (Make r) \<and> ws_normalized (Model r)
     \<and> ws_normalized (Year r) \<and> ws_normalized (Auction_Date r)
     \<and> ws_normalized (ACV_Cost r) \<and> ws_normalized (Repair_Cost r)
     \<and> URL r = url"
proof -
  have flv: "ws_normalized (find_labeled_value soup labels)" for labels
    using clean_text_normalized [of "Some (find_labeled_value soup labels)"]
    by (simp add: find_labeled_value_idem)
  have dr: "ws_normalized (digit_run5 url)"
    using clean_text_normalized [of "Some (digit_run5 url)"]
    by (simp add: clean_text_digit_run5)
  from parse_vehicle_Inr [of soup url] obtain r where
    "parse_vehicle soup url = Inr r"
    "ws_normalized (Stock_No r)" "ws_normalized (Make r)" "ws_normalized (Model r)"
    "ws_normalized (Year r)" "ws_normalized (Auction_Date r)"
    "ws_normalized (ACV_Cost r)" "ws_normalized (Repair_Cost r)" "URL r = url"
    by (auto simp: clean_text_normalized flv dr)
  then show ?thesis by blast
qed

theorem record_fields_normalized_witness:
  "map_sum id Stock_No (parse_vehicle stock_page iaai_url) = Inr ''2753199''
   \<and> ws_normalized ''2753199''
   \<and> map_sum id URL (parse_vehicle stock_page iaai_url) = Inr iaai_url"
  using record_fields_normalized [of stock_page iaai_url] parse_vehicle_Inr [of stock_page iaai_url]
  by (auto simp: stock_page_value)

text \<open>
  Claim C2 as stated fails for the URL field: a URL with two spaces in a row is stored as it
  is, and it is not whitespace-normalized.
\<close>

theorem url_not_normalized_counterexample:
  "map_sum id URL (parse_vehicle [] spaced_url) = Inr spaced_url \<and> \<not> ws_normalized spaced_url"
proof -
  have "\<not> ws_normalized spaced_url" by code_simp
  moreover have "map_sum id URL (parse_vehicle [] spaced_url) = Inr spaced_url"
    using parse_vehicle_Inr [of "[]" spaced_url] by auto
  ultimately show ?thesis by simp
qed

text \<open>
  Claim C4.  For all documents and label lists \<open>find_labeled_value\<close> is a function of its
  two arguments (a total function of the logic: every definition it rests on terminates) and
  its result is a whitespace-normalized string; when none of the three strategies returns,
  the result is the empty string.
\<close>

theorem find_labeled_value_total_clean:
  "ws_normalized (find_labeled_value soup labels)
   \<and> (strategy1 soup labels = None \<and> strategy2 soup labels = None \<and> strategy3 soup labels = None
        \<longrightarrow> find_labeled_value soup labels = [])"
proof -
  have "ws_normalized (find_labeled_value soup labels)"
    using clean_text_normalized [of "Some (find_labeled_value soup labels)"]
    by (simp add: find_labeled_value_idem)
  then show ?thesis by (simp add: find_labeled_value_def)
qed

theorem find_labeled_value_total_clean_witness:
  "strategy1 honda_page [''Model''] = None \<and> strategy2 honda_page [''Model''] = None
   \<and> strategy3 honda_page [''Model''] = None
   \<and> find_labeled_value honda_page [''Model''] = []
   \<and> ws_normalized (find_labeled_value honda_page [''Make''])
   \<and> find_labeled_value honda_page [''Make''] = ''HONDA''"
proof -
  have s: "strategy1 honda_page [''Model''] = None" "strategy2 honda_page [''Model''] = None"
    "strategy3 honda_page [''Model''] = None"
    by code_simp+
  with find_labeled_value_total_clean [of honda_page "[''Model'']"]
  have "find_labeled_value honda_page [''Model''] = []" by simp
  with s find_labeled_value_total_clean [of honda_page "[''Make'']"] honda_make
  show ?thesis by simp
qed

text \<open>
  Claim C6.  For every document and URL the record's Stock No is the value that
  \<open>find_labeled_value\<close> gives for the stock labels when that value is not empty, and
  otherwise the first run of five or more digits of the URL, which is what the search for
  \<open>(\d{5,})\<close> yields (the empty string when there is no such run).
\<close>

theorem stock_no_precedence:
  "\<exists>r. parse_vehicle soup url = Inr r
     \<and> Stock_No r =
         (if find_labeled_value soup stock_labels \<noteq> [] then find_labeled_value soup stock_labels
          else digit_run5 url)
     \<and> url_stock url = Some (digit_run5 url)"
  using parse_vehicle_Inr [of soup url] by (auto simp: url_stock_digit_run5)

theorem stock_no_precedence_witness:
  "map_sum id Stock_No (parse_vehicle [] iaai_url) = Inr ''2753101''
   \<and> map_sum id Stock_No (parse_vehicle stock_page iaai_url) = Inr ''2753199''"
  using stock_no_precedence [of "[]" iaai_url] stock_no_precedence [of stock_page iaai_url]
  by (auto simp: find_labeled_value_empty stock_page_value iaai_url_digits)

text \<open>
  Claim C7.  For every document and URL: a Year, Make or Model that the labels gave (a
  non-empty value) is the value of the record, whatever the title says; and when all three
  are non-empty, or the document has no title or an empty one, the three fields are the
  values that the labels gave, so the title pattern changes nothing.
\<close>

theorem title_fallback_frame:
  "\<exists>r. parse_vehicle soup url = Inr r
     \<and> (find_labeled_value soup [''Year''] \<noteq> [] \<longrightarrow> Year r = find_labeled_value soup [''Year''])
     \<and> (find_labeled_value soup [''Make''] \<noteq> [] \<longrightarrow> Make r = find_labeled_value soup [''Make''])
     \<and> (find_labeled_value soup [''Model''] \<noteq> [] \<longrightarrow> Model r = find_labeled_value soup [''Model''])
     \<and> ((find_labeled_value soup [''Year''] \<noteq> [] \<and> find_labeled_value soup [''Make''] \<noteq> []
           \<and> find_labeled_value soup [''Model''] \<noteq> []) \<or> soup_title soup = None
          \<or> title_text soup = []
         \<longrightarrow> Year r = find_labeled_value soup [''Year'']
             \<and> Make r = find_labeled_value soup [''Make'']
             \<and> Model r = find_labeled_value soup [''Model''])"
proof -
  let ?y = "find_labeled_value soup [''Year'']"
  let ?mk = "find_labeled_value soup [''Make'']"
  let ?md = "find_labeled_value soup [''Model'']"
  from parse_vehicle_Inr [of soup url] obtain y mk md r where
    tf: "title_fallback (title_text soup) ?y ?mk ?md = Inr (y, mk, md)"
    and r: "parse_vehicle soup url = Inr r" "Year r = clean_text (Some y)" "Make r = clean_text mk"
      "Model r = clean_text (Some md)"
    by fastforce
  have t: "soup_title soup = None \<Longrightarrow> title_text soup = []"
    by (simp add: title_text_def)
  note keep = title_fallback_keep [OF tf]
  have skip: "(?y \<noteq> [] \<and> ?mk \<noteq> [] \<and> ?md \<noteq> []) \<or> title_text soup = []
      \<Longrightarrow> y = ?y \<and> mk = Some ?mk \<and> md = ?md"
    by (rule title_fallback_skip [OF tf])
  show ?thesis
    using r keep skip t by (intro exI [of _ r]) (auto simp: find_labeled_value_idem)
qed

theorem title_fallback_frame_witness:
  "find_labeled_value honda_page [''Make''] = ''HONDA''
   \<and> map_sum id Make (parse_vehicle honda_page iaai_url) = Inr ''HONDA''
   \<and> map_sum id Year (parse_vehicle honda_page iaai_url) = Inr ''2021''
   \<and> map_sum id Model (parse_vehicle honda_page iaai_url) = Inr ''Civic - IAAI''
   \<and> find_labeled_value [] [''Year''] = []
   \<and> map_sum id Year (parse_vehicle [] iaai_url) = Inr []"
proof -
  have tf: "title_fallback (title_text honda_page) (find_labeled_value honda_page [''Year''])
       (find_labeled_value honda_page [''Make'']) (find_labeled_value honda_page [''Model''])
     = Inr (''2021'', Some ''HONDA'', ''Civic - IAAI'')"
    by (simp only: honda_make honda_year honda_model honda_title honda_fallback)
  from parse_vehicle_ymm [OF tf, of iaai_url]
  have "map_sum id Year (parse_vehicle honda_page iaai_url) = Inr ''2021''
      \<and> map_sum id Model (parse_vehicle honda_page iaai_url) = Inr ''Civic - IAAI''"
    by (simp only: honda_clean)
  then show ?thesis
    using title_fallback_frame [of honda_page iaai_url] title_fallback_frame [of "[]" iaai_url]
    by (auto simp: honda_make find_labeled_value_empty title_text_empty)
qed

lemma acv_page_value: "find_labeled_value acv_page acv_labels = ''12345''"
  by code_simp
lemma approx_page_value: "find_labeled_value approx_page acv_labels = ''Approx. $12,345.67 USD''"
  by code_simp
lemma money_12345: "normalize_money ''12345'' = ''123''"
  by code_simp
lemma money_approx: "normalize_money ''Approx. $12,345.67 USD'' = ''$12,345.67''"
  by code_simp
lemma clean_money: "clean_text (Some ''123'') = ''123''" "clean_text (Some ''$12,345.67'') = ''$12,345.67''"
  by code_simp+

lemma parse_vehicle_costs:
  "map_sum id ACV_Cost (parse_vehicle soup url)
     = Inr (clean_text (Some (normalize_money (find_labeled_value soup acv_labels))))
   \<and> map_sum id Repair_Cost (parse_vehicle soup url)
     = Inr (clean_text (Some (normalize_money (find_labeled_value soup repair_labels))))"
  using parse_vehicle_Inr [of soup url] by auto

text \<open>
  Claim C1 fails on the code.  An ACV value 12345 on the page is stored as 123: the money
  pattern takes one to three digits and then asks for a comma, so its first match in 12345
  is 123.  The other example of the claim holds: the text with the separated amount is
  stored as the amount.
\<close>

theorem money_truncates_plain_number:
  "find_labeled_value acv_page acv_labels = ''12345''
   \<and> map_sum id ACV_Cost (parse_vehicle acv_page iaai_url) = Inr ''123''
   \<and> find_labeled_value approx_page acv_labels = ''Approx. $12,345.67 USD''
   \<and> map_sum id ACV_Cost (parse_vehicle approx_page iaai_url) = Inr ''$12,345.67''"
  using parse_vehicle_costs [of acv_page iaai_url] parse_vehicle_costs [of approx_page iaai_url]
  by (simp add: acv_page_value approx_page_value money_12345 money_approx clean_money)







lemma first_some_append:
  "first_some f (xs @ ys) = (case first_some f xs of Some y \<Rightarrow> Some y | None \<Rightarrow> first_some f ys)"
  by (induction xs) (auto split: option.splits)

lemma first_some_None_iff: "first_some f xs = None \<longleftrightarrow> (\<forall>x \<in> set xs. f x = None)"
  by (induction xs) (auto split: option.splits)

lemma first_some_first:
  "\<forall>x \<in> set xs. f x = None \<Longrightarrow> f t = Some v \<Longrightarrow> first_some f (xs @ t # ys) = Some v"
  by (simp add: first_some_append first_some_None_iff [THEN iffD2])









text \<open>
  Claim C5, as amended.  Among the \<open>dt\<close> elements in document order, the first one that
  matches a label and has a following \<open>dd\<close> sibling decides: \<open>find_labeled_value\<close>
  returns the cleaned text of that \<open>dd\<close>, whatever strategies 2 and 3 would find.
\<close>

theorem first_paired_term_wins:
  assumes "find_all soup [''dt''] = xs @ dt # ys"
    and "\<forall>x \<in> set xs. \<not> term_matches labels x \<or> find_next_sibling soup (fst x) (Some ''dd'') = None"
    and "term_matches labels dt"
    and "find_next_sibling soup (fst dt) (Some ''dd'') = Some dd"
  shows "find_labeled_value soup labels = clean_text (Some (get_text '' '' True (snd dd)))"
proof -
  from assms(2) have "\<forall>x \<in> set xs. strategy1_at soup labels x = None"
    by (auto simp: strategy1_at_def)
  moreover from assms(3,4)
  have "strategy1_at soup labels dt = Some (clean_text (Some (get_text '' '' True (snd dd))))"
    by (simp add: strategy1_at_def)
  ultimately have "strategy1 soup labels = Some (clean_text (Some (get_text '' '' True (snd dd))))"
    unfolding strategy1_def assms(1) by (rule first_some_first)
  then show ?thesis by (simp add: find_labeled_value_def)
qed

lemma two_terms_dts:
  "find_all two_terms_page [''dt'']
     = [([2, 0], Tag ''dt'' [Text ''Make'']), ([2, 2], Tag ''dt'' [Text ''Year'']),
        ([2, 4], Tag ''dt'' [Text ''Year:''])]"
  by code_simp

lemma two_terms_match:
  "\<not> term_matches [''Year''] ([2, 0], Tag ''dt'' [Text ''Make''])"
  "term_matches [''Year''] ([2, 2], Tag ''dt'' [Text ''Year''])"
  "term_matches [''Year''] ([2, 4], Tag ''dt'' [Text ''Year:''])"
  by code_simp+

lemma two_terms_dd:
  "find_next_sibling two_terms_page [2, 2] (Some ''dd'') = Some ([2, 3], Tag ''dd'' [Text ''2020''])"
  "find_next_sibling two_terms_page [2, 4] (Some ''dd'') = Some ([2, 5], Tag ''dd'' [Text ''2021''])"
  by code_simp+

lemma two_terms_texts:
  "clean_text (Some (get_text '' '' True (Tag ''dd'' [Text ''2020'']))) = ''2020''"
  "clean_text (Some (get_text '' '' True (Tag ''dd'' [Text ''2021'']))) = ''2021''"
  by code_simp+

lemma two_terms_s2: "strategy2 two_terms_page [''Year''] = Some ''1999''"
  by code_simp

theorem first_paired_term_wins_witness:
  "find_labeled_value two_terms_page [''Year''] = ''2020''
   \<and> strategy2 two_terms_page [''Year''] = Some ''1999''"
  using first_paired_term_wins [of two_terms_page "[([2, 0], Tag ''dt'' [Text ''Make''])]"
      "([2, 2], Tag ''dt'' [Text ''Year''])" "[([2, 4], Tag ''dt'' [Text ''Year:''])]"
      "[''Year'']" "([2, 3], Tag ''dd'' [Text ''2020''])"]
  by (simp add: two_terms_dts two_terms_match two_terms_dd two_terms_texts two_terms_s2)

text \<open>
  Claim C5 as stated fails for a later term: the third \<open>dt\<close> of the page below matches
  the label and is paired with the \<open>dd\<close> 2021, and the result is 2020, the definition of
  the first matching term.
\<close>

theorem later_term_counterexample:
  "find_all two_terms_page [''dt'']
     = [([2, 0], Tag ''dt'' [Text ''Make'']), ([2, 2], Tag ''dt'' [Text ''Year'']),
        ([2, 4], Tag ''dt'' [Text ''Year:''])]
   \<and> term_matches [''Year''] ([2, 4], Tag ''dt'' [Text ''Year:''])
   \<and> find_next_sibling two_terms_page [2, 4] (Some ''dd'') = Some ([2, 5], Tag ''dd'' [Text ''2021''])
   \<and> clean_text (Some (get_text '' '' True (Tag ''dd'' [Text ''2021'']))) = ''2021''
   \<and> find_labeled_value two_terms_page [''Year''] = ''2020''"
proof -
  have "find_labeled_value two_terms_page [''Year''] = ''2020''" by code_simp
  then show ?thesis
    by (simp add: two_terms_dts two_terms_match two_terms_dd two_terms_texts)
qed

section \<open>Properties of the post-processing\<close>

lemma drop_dups_filter:
  "filter (\<lambda>r. key r = v) (drop_dups key seen rs)
     = (if v \<in> set seen then [] else take 1 (filter (\<lambda>r. key r = v) rs))"
proof (induction rs arbitrary: seen)
  case Nil
  then show ?case by simp
next
  case (Cons r rs)
  show ?case
  proof (cases "key r \<in> set seen")
    case True
    then show ?thesis by (auto simp: Cons.IH)
  next
    case False
    then show ?thesis by (auto simp: Cons.IH)
  qed
qed



lemma sort_key_short: "length xs \<le> 1 \<Longrightarrow> sort_key f xs = xs"
  by (cases xs) auto



lemma post_process_rows:
  assumes "list_all (\<lambda>c. c \<in> set (columns df0)) HEADERS"
  shows "post_process df0 =
     Inr \<lparr> columns = HEADERS,
           rows = sort_key (\<lambda>r. [date_of r, stock_of r])
                    (drop_dups stock_of [] (selected_rows df0)) \<rparr>"
proof -
  have sel: "select_columns df0 HEADERS = Inr \<lparr> columns = HEADERS, rows = selected_rows df0 \<rparr>"
    using assms by (simp add: select_columns_def selected_rows_def)
  have h: "''Stock No'' \<in> set HEADERS" "''Auction Date'' \<in> set HEADERS"
    by (simp_all add: HEADERS_def)
  show ?thesis
    by (simp add: post_process_def sel h Let_def drop_duplicates_def sort_values_def
        stock_of_def [abs_def] date_of_def [abs_def])
qed

lemma post_process_filter:
  "filter (\<lambda>r. stock_of r = v)
     (sort_key (\<lambda>r. [date_of r, stock_of r]) (drop_dups stock_of [] xs))
   = take 1 (filter (\<lambda>r. stock_of r = v) xs)"
proof -
  let ?K = "\<lambda>r. [date_of r, stock_of r]"
  let ?F = "take 1 (filter (\<lambda>r. stock_of r = v) xs)"
  have "sort_key ?K ?F = ?F" by (rule sort_key_short) simp
  moreover have "filter (\<lambda>r. stock_of r = v) (drop_dups stock_of [] xs) = ?F"
    by (simp add: drop_dups_filter)
  ultimately show ?thesis by (simp only: filter_sort)
qed



lemma no_stock_frame_headers: "list_all (\<lambda>c. c \<in> set (columns no_stock_frame)) HEADERS"
  by code_simp



text \<open>
  Claim C10.  The empty Stock No is a value like any other for the deduplication: of the
  rows whose Stock No is the empty string the result keeps the first and drops all the
  others.
\<close>

theorem empty_stock_rows_collapse:
  assumes "list_all (\<lambda>c. c \<in> set (columns df0)) HEADERS"
  shows "\<exists>df. post_process df0 = Inr df
     \<and> filter (\<lambda>r. stock_of r = []) (rows df)
         = take 1 (filter (\<lambda>r. stock_of r = []) (selected_rows df0))
     \<and> length (filter (\<lambda>r. stock_of r = []) (rows df)) \<le> 1"
proof -
  have "length (take 1 (filter (\<lambda>r. stock_of r = []) (selected_rows df0))) \<le> 1" by simp
  then show ?thesis
    by (simp add: post_process_rows [OF assms] post_process_filter del: length_take)
qed

theorem empty_stock_rows_collapse_witness:
  "list_all (\<lambda>c. c \<in> set (columns no_stock_frame)) HEADERS
   \<and> filter (\<lambda>r. stock_of r = []) (selected_rows no_stock_frame)
       = [[[], ''HONDA'', ''Civic'', ''2021'', ''2024-02-01'', ''u1'', [], []],
          [[], ''TOYOTA'', ''Yaris'', ''2020'', ''2024-03-01'', ''u3'', [], []]]
   \<and> map_sum id (\<lambda>df. filter (\<lambda>r. stock_of r = []) (rows df)) (post_process no_stock_frame)
       = Inr [[[], ''HONDA'', ''Civic'', ''2021'', ''2024-02-01'', ''u1'', [], []]]"
proof -
  have f: "filter (\<lambda>r. stock_of r = []) (selected_rows no_stock_frame)
       = [[[], ''HONDA'', ''Civic'', ''2021'', ''2024-02-01'', ''u1'', [], []],
          [[], ''TOYOTA'', ''Yaris'', ''2020'', ''2024-03-01'', ''u3'', [], []]]"
    by code_simp
  from empty_stock_rows_collapse [OF no_stock_frame_headers] f
  have "map_sum id (\<lambda>df. filter (\<lambda>r. stock_of r = []) (rows df)) (post_process no_stock_frame)
       = Inr [[[], ''HONDA'', ''Civic'', ''2021'', ''2024-02-01'', ''u1'', [], []]]"
    by auto
  with no_stock_frame_headers f show ?thesis by simp
qed





end
